theory Spec2Isabelle
  imports Complex_Main "HOL-Library.Log_Nat" "HOL-Library.Multiset"
begin

section \<open>JavaScript numbers\<close>

text \<open>
  A JavaScript Number is an IEEE-754 double. A finite double is a rational number, so the
  finite values are carried as \<open>rat\<close>; the two infinities and NaN are separate values.
  Negative zero is identified with zero: the component never divides by a value that can
  be zero and never prints a zero's sign.
\<close>

datatype number = Fin rat | PInf | NInf | NaN

text \<open>\<open>ilog2 x\<close> is the binary exponent of a positive rational: \<open>2 ^ ilog2 x \<le> x < 2 ^ (ilog2 x + 1)\<close>.\<close>

definition ilog2 :: "rat \<Rightarrow> int" where
  "ilog2 x =
     (let k = bitlen (fst (quotient_of x)) - bitlen (snd (quotient_of x))
      in if 2 powi k \<le> x then k else k - 1)"

text \<open>Rounding to the nearest integer, a tie going to the even neighbour.\<close>

definition round_even :: "rat \<Rightarrow> int" where
  "round_even x =
     (let f = \<lfloor>x\<rfloor>; d = x - of_int f
      in if d < 1 / 2 then f
         else if 1 / 2 < d then f + 1
         else if even f then f else f + 1)"

text \<open>
  \<open>round_double\<close> is the rounding every arithmetic operation of a double applies to its
  exact result (round to nearest, ties to even): 53 significant bits, the exponent of the
  last place never below \<open>-1074\<close> (subnormal numbers), and an infinity once the rounded
  magnitude reaches \<open>2 ^ 1024\<close>.
\<close>

definition round_double :: "rat \<Rightarrow> number" where
  "round_double x =
     (if x = 0 then Fin 0
      else
        let e = max (ilog2 \<bar>x\<bar>) (- 1022) - 52;
            y = of_int (round_even (x / 2 powi e)) * 2 powi e
        in if 2 powi 1024 \<le> \<bar>y\<bar> then (if 0 < x then PInf else NInf) else Fin y)"

text \<open>
  The operators \<open>+\<close>, \<open>-\<close> and \<open>/\<close> on Numbers. Comparing two finite Numbers is
  comparing the rationals.
\<close>

fun js_add :: "number \<Rightarrow> number \<Rightarrow> number" where
  "js_add NaN _ = NaN"
| "js_add _ NaN = NaN"
| "js_add PInf NInf = NaN"
| "js_add NInf PInf = NaN"
| "js_add PInf _ = PInf"
| "js_add _ PInf = PInf"
| "js_add NInf _ = NInf"
| "js_add _ NInf = NInf"
| "js_add (Fin a) (Fin b) = round_double (a + b)"

fun js_neg :: "number \<Rightarrow> number" where
  "js_neg (Fin a) = Fin (- a)"
| "js_neg PInf = NInf"
| "js_neg NInf = PInf"
| "js_neg NaN = NaN"

definition js_sub :: "number \<Rightarrow> number \<Rightarrow> number" where
  "js_sub a b = js_add a (js_neg b)"

fun js_div :: "number \<Rightarrow> number \<Rightarrow> number" where
  "js_div NaN _ = NaN"
| "js_div _ NaN = NaN"
| "js_div (Fin a) (Fin b) =
     (if b = 0 then (if a = 0 then NaN else if 0 < a then PInf else NInf)
      else round_double (a / b))"
| "js_div (Fin a) _ = Fin 0"
| "js_div PInf (Fin b) = (if 0 \<le> b then PInf else NInf)"
| "js_div NInf (Fin b) = (if 0 \<le> b then NInf else PInf)"
| "js_div _ _ = NaN"

section \<open>Strings\<close>

text \<open>
  \<open>Number::toString\<close> prints the shortest decimal digits that read back as the same
  double. The digits are not computed here: \<open>Shortest x s\<close> stands for the text of the
  finite number \<open>x\<close> followed by the characters \<open>s\<close>, as a template literal
  \<^verbatim>\<open>`${x}s`\<close> produces it. \<open>Chars s\<close> is a string whose characters are known.
\<close>

datatype jsstring = Chars string | Shortest rat string

text \<open>The decimal digits of a natural number, and \<open>String.prototype.padStart\<close>.\<close>

fun digits :: "nat \<Rightarrow> string" where
  "digits n =
     (if n < 10 then [char_of (48 + n)]
      else digits (n div 10) @ [char_of (48 + n mod 10)])"

declare digits.simps [simp del]

definition padStart :: "string \<Rightarrow> nat \<Rightarrow> char \<Rightarrow> string" where
  "padStart s n c = replicate (n - length s) c @ s"

text \<open>
  \<open>Number.prototype.toFixed\<close>. A value that is not finite prints as its name, a magnitude
  of \<open>10 ^ 21\<close> or more as \<open>Number::toString\<close> prints it. Otherwise \<open>n\<close> is the
  integer for which \<open>n / 10 ^ f\<close> is nearest to the magnitude, the larger one of two equally
  near; its digits are padded with zeros to \<open>f + 1\<close> characters and the point is put
  before the last \<open>f\<close>.
\<close>

definition toFixed :: "nat \<Rightarrow> number \<Rightarrow> jsstring" where
  "toFixed f x =
     (case x of
        NaN \<Rightarrow> Chars ''NaN''
      | PInf \<Rightarrow> Chars ''Infinity''
      | NInf \<Rightarrow> Chars ''-Infinity''
      | Fin v \<Rightarrow>
          if 10 ^ 21 \<le> \<bar>v\<bar> then Shortest v ''''
          else
            let n = nat \<lfloor>\<bar>v\<bar> * 10 ^ f + 1 / 2\<rfloor>;
                m = padStart (digits n) (f + 1) (CHR ''0'');
                k = length m
            in Chars ((if v < 0 then ''-'' else '''') @
                      (if f = 0 then m else take (k - f) m @ ''.'' @ drop (k - f) m)))"

text \<open>A value that is either a Number or a string.\<close>

datatype jsvalue = Num number | Str jsstring

section \<open>Data model\<close>

datatype timeOfDayOption = morning | afternoon | evening | night

datatype weatherOption = sunny | cloudy | rainy | overcast | windy

text \<open>
  The fields of a catch. A field that is absent (\<open>undefined\<close>) is \<open>None\<close>. A numeric
  field holds a finite number; any rational is admitted there, the doubles among them. The
  type of \<open>datecaught\<close> differs between the form (a date-picker value), the creation
  payload and a stored record (both a string), so it is a parameter.
\<close>

record 'd catchFields =
  species :: "string option"
  weight :: "rat option"
  length_in :: "rat option"
  location :: "string option"
  datecaught :: 'd
  timeOfDay :: "timeOfDayOption option"
  bait :: "string option"
  weather :: "weatherOption option"
  notes_text :: "string option"

text \<open>A record as the storage collaborator returns it: the fields and its \<open>_id\<close>.\<close>

record fish = "string catchFields" +
  fish_id :: string

text \<open>
  The value of the date picker, a dayjs object, read through its local-time fields
  (\<open>month\<close> is the calendar month, 1 to 12).
\<close>

record dayjs =
  year :: nat
  month :: nat
  day :: nat
  hour :: nat
  minute :: nat
  second :: nat

type_synonym formValues = "dayjs option catchFields"

type_synonym payload = "string catchFields"

text \<open>\<open>d.format('YYYY-MM-DD')\<close>: the year padded to four digits, month and day to two.\<close>

definition format_YYYY_MM_DD :: "dayjs \<Rightarrow> string" where
  "format_YYYY_MM_DD d =
     padStart (digits (year d)) 4 (CHR ''0'') @ ''-'' @
     padStart (digits (month d)) 2 (CHR ''0'') @ ''-'' @
     padStart (digits (day d)) 2 (CHR ''0'')"

section \<open>Derived statistics\<close>

text \<open>
  The four statistics of \<^verbatim>\<open>FishTracker.jsx\<close>, lines 110 to 116, and the Biggest Fish
  card, lines 145 to 150. \<open>x || 0\<close> on a numeric field: \<open>undefined\<close> and \<open>0\<close> are falsy.
\<close>

definition or_zero :: "rat option \<Rightarrow> rat" where
  "or_zero x = (case x of None \<Rightarrow> 0 | Some v \<Rightarrow> if v = 0 then 0 else v)"

definition totalCatches :: "fish list \<Rightarrow> nat" where
  "totalCatches catches = length catches"

definition totalWeight :: "fish list \<Rightarrow> number" where
  "totalWeight catches =
     foldl (\<lambda>sum fish. js_add sum (Fin (or_zero (weight fish)))) (Fin 0) catches"

definition averageWeight :: "fish list \<Rightarrow> jsvalue" where
  "averageWeight catches =
     (if 0 < totalCatches catches
      then Str (toFixed 2 (js_div (totalWeight catches) (Fin (of_nat (totalCatches catches)))))
      else Num (Fin 0))"

text \<open>
  The accumulator of the \<open>biggestFish\<close> reduction is either the initial object
  \<^verbatim>\<open>{ weight: 0 }\<close> or one of the records.
\<close>

datatype biggest = Sentinel | Caught fish

fun weight_of :: "biggest \<Rightarrow> rat option" where
  "weight_of Sentinel = Some 0"
| "weight_of (Caught fish) = weight fish"

definition biggestFish :: "fish list \<Rightarrow> biggest" where
  "biggestFish catches =
     foldl (\<lambda>max fish. if or_zero (weight_of max) < or_zero (weight fish) then Caught fish else max)
       Sentinel catches"

text \<open>The callback of that reduction, named for the proofs.\<close>

abbreviation (input) bigger :: "biggest \<Rightarrow> fish \<Rightarrow> biggest" where
  "bigger \<equiv> \<lambda>max fish. if or_zero (weight_of max) < or_zero (weight fish) then Caught fish else max"

text \<open>The Biggest Fish card: its value and what its formatter shows.\<close>

definition biggestFishValue :: "fish list \<Rightarrow> rat" where
  "biggestFishValue catches = or_zero (weight_of (biggestFish catches))"

definition biggestFishFormatter :: "rat \<Rightarrow> jsstring" where
  "biggestFishFormatter v = (if 0 < v then Shortest v '' lbs'' else Chars ''None yet'')"

section \<open>Table columns\<close>

text \<open>
  The \<open>sorter\<close> of the weight column (line 75) and the \<open>sorter\<close> and \<open>render\<close> of the
  length column (lines 82 and 83). An absent operand of \<open>-\<close> converts to NaN. The weight
  sorter subtracts the fields as they are; the length sorter replaces a falsy field by 0
  first.
\<close>

definition to_number :: "rat option \<Rightarrow> number" where
  "to_number x = (case x of None \<Rightarrow> NaN | Some v \<Rightarrow> Fin v)"

definition weight_sorter :: "fish \<Rightarrow> fish \<Rightarrow> number" where
  "weight_sorter a b = js_sub (to_number (weight a)) (to_number (weight b))"



section \<open>The view and its two operations\<close>

record view =
  catches :: "fish list"
  isModalOpen :: bool
  loading :: bool
  form :: formValues

text \<open>What an operation does to the outside: calls of the collaborator and notifications.\<close>

datatype event =
  ListCall
| CreateCall payload
| MessageSuccess string
| MessageError string

text \<open>
  An awaited call either rejects (or throws) or resolves with a result object holding
  \<open>success\<close> and \<open>data\<close>. How a call settles is an argument of the operation that
  awaits it: \<open>loadCatches\<close> (lines 27 to 39) and \<open>handleAddCatch\<close> (lines 41 to 58).
\<close>

datatype 'a result = Result (success: bool) (data: 'a)

datatype 'a settled = Rejects | Resolves "'a result"

definition loadCatches :: "fish list settled \<Rightarrow> view \<Rightarrow> event list \<times> view" where
  "loadCatches listed s =
     (let s1 = s\<lparr>loading := True\<rparr>
      in case listed of
           Resolves r \<Rightarrow>
             ([ListCall],
              (if success r then s1\<lparr>catches := data r\<rparr> else s1)\<lparr>loading := False\<rparr>)
         | Rejects \<Rightarrow>
             ([ListCall, MessageError ''Failed to load fish catches''],
              s1\<lparr>loading := False\<rparr>))"

text \<open>\<open>form.resetFields()\<close>: no field has an initial value, so every field becomes absent.\<close>

definition resetFields :: formValues where
  "resetFields =
     \<lparr>species = None, weight = None, length_in = None, location = None, datecaught = None,
      timeOfDay = None, bait = None, weather = None, notes_text = None\<rparr>"

text \<open>The object \<^verbatim>\<open>{...values, datecaught: values.datecaught.format('YYYY-MM-DD')}\<close>.\<close>

definition catchData :: "formValues \<Rightarrow> dayjs \<Rightarrow> payload" where
  "catchData vals d =
     \<lparr>species = species vals, weight = weight vals, length_in = length_in vals,
      location = location vals, datecaught = format_YYYY_MM_DD d,
      timeOfDay = timeOfDay vals, bait = bait vals, weather = weather vals,
      notes_text = notes_text vals\<rparr>"

text \<open>
  \<open>handleAddCatch\<close> receives the form's values, the way the create call settles and the
  way the list call of the re-fetch settles. Reading \<open>format\<close> of an absent date throws
  inside the \<open>try\<close> block, before any call is made.
\<close>

definition handleAddCatch ::
  "formValues \<Rightarrow> fish option settled \<Rightarrow> fish list settled \<Rightarrow> view \<Rightarrow> event list \<times> view" where
  "handleAddCatch vals created listed s =
     (case datecaught vals of
        None \<Rightarrow> ([MessageError ''Failed to add fish catch''], s)
      | Some d \<Rightarrow>
          (case created of
             Rejects \<Rightarrow>
               ([CreateCall (catchData vals d), MessageError ''Failed to add fish catch''], s)
           | Resolves r \<Rightarrow>
               if success r then
                 let (es, s') = loadCatches listed (s\<lparr>isModalOpen := False, form := resetFields\<rparr>)
                 in (CreateCall (catchData vals d) # MessageSuccess ''Fish catch added successfully!'' # es, s')
               else ([CreateCall (catchData vals d)], s)))"

text \<open>The \<open>required\<close> rules of the form: species, weight, date caught and location.\<close>

definition required_present :: "formValues \<Rightarrow> bool" where
  "required_present vals \<longleftrightarrow>
     species vals \<noteq> None \<and> weight vals \<noteq> None \<and> datecaught vals \<noteq> None \<and> location vals \<noteq> None"

section \<open>Vocabulary of the properties\<close>

text \<open>
  A call fails when it rejects or throws, or resolves with \<open>success = false\<close>. The
  calls and notifications of an operation are read off its events.
\<close>

fun failed :: "'a settled \<Rightarrow> bool" where
  "failed Rejects = True"
| "failed (Resolves r) = (\<not> success r)"

definition createCalls :: "event list \<Rightarrow> payload list" where
  "createCalls es = concat (map (\<lambda>e. case e of CreateCall p \<Rightarrow> [p] | _ \<Rightarrow> []) es)"

definition listCalls :: "event list \<Rightarrow> nat" where
  "listCalls es = length (filter (\<lambda>e. e = ListCall) es)"

definition errorMessages :: "event list \<Rightarrow> string list" where
  "errorMessages es = concat (map (\<lambda>e. case e of MessageError m \<Rightarrow> [m] | _ \<Rightarrow> []) es)"

text \<open>A record whose weight is 0 or missing.\<close>

definition weightless :: "fish \<Rightarrow> bool" where
  "weightless f \<longleftrightarrow> weight f = None \<or> weight f = Some 0"

text \<open>A number without a fractional part.\<close>

definition whole :: "rat \<Rightarrow> bool" where
  "whole x \<longleftrightarrow> of_int \<lfloor>x\<rfloor> = x"

text \<open>
  What a printed number says: \<open>read_decimal\<close> reads an optional minus sign, digits and
  an optional point followed by digits; \<open>fraction_digits\<close> counts the characters after
  the point. The text \<open>Shortest v []\<close> reads back as \<open>v\<close> by its definition.
\<close>

definition is_digit :: "char \<Rightarrow> bool" where
  "is_digit c \<longleftrightarrow> 48 \<le> (of_char c :: nat) \<and> (of_char c :: nat) \<le> 57"

definition digits_value :: "string \<Rightarrow> nat" where
  "digits_value s = foldl (\<lambda>a c. 10 * a + (of_char c - 48)) 0 s"

definition read_digits :: "string \<Rightarrow> nat option" where
  "read_digits s = (if s \<noteq> [] \<and> list_all is_digit s then Some (digits_value s) else None)"

definition read_unsigned :: "string \<Rightarrow> rat option" where
  "read_unsigned s =
     (let a = takeWhile (\<lambda>c. c \<noteq> CHR ''.'') s; b = dropWhile (\<lambda>c. c \<noteq> CHR ''.'') s
      in case b of
           [] \<Rightarrow> map_option of_nat (read_digits a)
         | _ # fr \<Rightarrow>
             (case (read_digits a, read_digits fr) of
                (Some i, Some j) \<Rightarrow> Some (of_nat i + of_nat j / 10 ^ length fr)
              | _ \<Rightarrow> None))"

definition read_decimal :: "string \<Rightarrow> rat option" where
  "read_decimal s =
     (case s of
        [] \<Rightarrow> None
      | c # r \<Rightarrow> if c = CHR ''-'' then map_option uminus (read_unsigned r) else read_unsigned s)"

definition fraction_digits :: "string \<Rightarrow> nat" where
  "fraction_digits s = length (drop 1 (dropWhile (\<lambda>c. c \<noteq> CHR ''.'') s))"

fun text_value :: "jsstring \<Rightarrow> rat option" where
  "text_value (Chars s) = read_decimal s"
| "text_value (Shortest v s) = (if s = [] then Some v else None)"

text \<open>
  The text \<open>t\<close> is \<open>q\<close> rounded to \<open>f\<close> decimal places: it reads as a multiple of
  \<open>1 / 10 ^ f\<close> that is at most half of \<open>1 / 10 ^ f\<close> away from \<open>q\<close>.
\<close>

definition rounded_to :: "nat \<Rightarrow> rat \<Rightarrow> jsstring \<Rightarrow> bool" where
  "rounded_to f q t \<longleftrightarrow>
     (case text_value t of
        None \<Rightarrow> False
      | Some v \<Rightarrow> whole (v * 10 ^ f) \<and> \<bar>v - q\<bar> \<le> 1 / (2 * 10 ^ f))"

subsection \<open>Example inputs\<close>

definition july4 :: dayjs where
  "july4 = \<lparr>year = 2024, month = 7, day = 4, hour = 9, minute = 30, second = 0\<rparr>"

definition filledForm :: formValues where
  "filledForm =
     \<lparr>species = Some ''Bass'', weight = Some (5 / 2), length_in = None,
      location = Some ''Lake Michigan'', datecaught = Some july4, timeOfDay = Some morning,
      bait = None, weather = None, notes_text = None\<rparr>"

definition trout :: fish where
  "trout =
     \<lparr>species = Some ''Trout'', weight = Some 3, length_in = None,
      location = Some ''Smith River'', datecaught = ''2024-06-01'', timeOfDay = None,
      bait = None, weather = None, notes_text = None, fish_id = ''a1''\<rparr>"

definition minnow :: fish where
  "minnow =
     \<lparr>species = Some ''Minnow'', weight = Some 0, length_in = Some 2,
      location = Some ''Smith River'', datecaught = ''2024-06-02'', timeOfDay = None,
      bait = None, weather = None, notes_text = None, fish_id = ''a2''\<rparr>"

text \<open>The doubles that the literals \<open>0.1\<close>, \<open>0.2\<close> and \<open>0.3\<close> denote, and a record of a given weight.\<close>

definition d01 :: rat where
  "d01 = 3602879701896397 / 36028797018963968"

definition d02 :: rat where
  "d02 = 3602879701896397 / 18014398509481984"

definition d03 :: rat where
  "d03 = 5404319552844595 / 18014398509481984"

text \<open>The double that the literal \<open>0.225\<close> denotes.\<close>

definition d0225 :: rat where
  "d0225 = 8106479329266893 / 36028797018963968"

definition weighing :: "rat \<Rightarrow> fish" where
  "weighing w = trout\<lparr>weight := Some w\<rparr>"

definition openView :: view where
  "openView = \<lparr>catches = [trout], isModalOpen = True, loading = False, form = filledForm\<rparr>"

section \<open>Rounding to a double\<close>

lemma bitlen_bounds_rat:
  assumes "0 < a"
  shows "(2::rat) powi (bitlen a - 1) \<le> of_int a" and "of_int a < (2::rat) powi bitlen a"
proof -
  from assms have pos: "1 \<le> bitlen a"
    by (auto simp: bitlen_alt_def)
  from bitlen_bounds [OF assms] have lo: "2 ^ nat (bitlen a - 1) \<le> a" and hi: "a < 2 ^ nat (bitlen a)"
    by simp_all
  from lo have "(of_int (2 ^ nat (bitlen a - 1)) :: rat) \<le> of_int a"
    by (simp only: of_int_le_iff)
  with pos show "(2::rat) powi (bitlen a - 1) \<le> of_int a"
    by (simp add: power_int_def)
  from hi have "(of_int a :: rat) < of_int (2 ^ nat (bitlen a))"
    by (simp only: of_int_less_iff)
  with pos show "of_int a < (2::rat) powi bitlen a"
    by (simp add: power_int_def)
qed

lemma ilog2_bounds:
  assumes "0 < x"
  shows "2 powi ilog2 x \<le> x" and "x < 2 powi (ilog2 x + 1)"
proof -
  obtain a b where q: "quotient_of x = (a, b)"
    by (cases "quotient_of x")
  then have b: "0 < b" and x: "x = of_int a / of_int b"
    by (simp_all add: quotient_of_denom_pos quotient_of_div)
  from assms b x have a: "0 < a"
    by (simp add: zero_less_divide_iff)
  define k where "k = bitlen a - bitlen b"
  have "2 powi (bitlen a - 1) / 2 powi bitlen b < of_int a / (of_int b :: rat)"
    using bitlen_bounds_rat [OF a] bitlen_bounds_rat [OF b] a b
    by (intro frac_less2) simp_all
  then have lo: "2 powi (k - 1) < x"
    by (simp add: x k_def power_int_diff)
  have "of_int a / (of_int b :: rat) < 2 powi bitlen a / 2 powi (bitlen b - 1)"
    using bitlen_bounds_rat [OF a] bitlen_bounds_rat [OF b] a b
    by (intro frac_less) simp_all
  then have hi: "x < 2 powi (k + 1)"
    by (simp add: x k_def power_int_diff power_int_add)
  have il: "ilog2 x = (if 2 powi k \<le> x then k else k - 1)"
    by (simp add: ilog2_def q k_def Let_def)
  from lo hi il show "2 powi ilog2 x \<le> x"
    by (auto simp: less_imp_le)
  from lo hi il show "x < 2 powi (ilog2 x + 1)"
    by (auto simp: not_le)
qed

lemma round_even_of_int: "round_even (of_int n) = n"
  by (simp add: round_even_def)

lemma round_even_bounds: "\<lfloor>x\<rfloor> \<le> round_even x \<and> round_even x \<le> \<lfloor>x\<rfloor> + 1"
  by (simp add: round_even_def Let_def)

lemma round_double_not_NaN: "round_double x \<noteq> NaN"
  by (simp add: round_double_def Let_def)

lemma ilog2_less:
  assumes "0 < x" and "x < 2 powi n"
  shows "ilog2 x < n"
proof (rule ccontr)
  assume "\<not> ilog2 x < n"
  then have "(2::rat) powi n \<le> 2 powi ilog2 x"
    by (intro power_int_increasing) simp_all
  with ilog2_bounds(1) [OF assms(1)] assms(2) show False
    by simp
qed

lemma round_double_of_int:
  assumes "\<bar>n\<bar> < 2 ^ 53"
  shows "round_double (of_int n) = Fin (of_int n)"
proof (cases "n = 0")
  case True
  then show ?thesis by (simp add: round_double_def)
next
  case False
  define x :: rat where "x = of_int n"
  define e where "e = max (ilog2 \<bar>x\<bar>) (- 1022) - 52"
  from False have pos: "0 < \<bar>x\<bar>"
    by (simp add: x_def)
  from assms have "\<bar>x\<bar> < 2 powi 53"
    unfolding x_def by (metis of_int_abs of_int_less_numeral_power_cancel_iff power_int_numeral)
  with pos have "ilog2 \<bar>x\<bar> < 53"
    by (rule ilog2_less)
  then have e: "e \<le> 0"
    by (simp add: e_def)
  define j where "j = nat (- e)"
  from e have "e = - int j"
    by (simp add: j_def)
  then have p: "(2::rat) powi e = 1 / 2 ^ j"
    by (simp add: power_int_minus inverse_eq_divide)
  have "x / 2 powi e = of_int (n * 2 ^ j)"
    by (simp add: p x_def)
  then have r: "round_even (x / 2 powi e) = n * 2 ^ j"
    by (simp only: round_even_of_int)
  have y: "of_int (round_even (x / 2 powi e)) * 2 powi e = x"
    unfolding r by (simp add: p x_def)
  have "(2::int) ^ 53 \<le> 2 ^ 1024"
    by (rule power_increasing) simp_all
  with assms have "\<bar>n\<bar> < 2 ^ 1024"
    by (rule less_le_trans)
  then have "(of_int \<bar>n\<bar> :: rat) < of_int (2 ^ 1024)"
    by (simp only: of_int_less_iff)
  then have big: "\<not> 2 powi 1024 \<le> \<bar>x\<bar>"
    by (simp only: x_def of_int_abs of_int_power of_int_numeral power_int_numeral not_le)
  from False have nz: "x \<noteq> 0"
    by (simp add: x_def)
  have "round_double x =
    (if 2 powi 1024 \<le> \<bar>rat_of_int (round_even (x / 2 powi e)) * 2 powi e\<bar>
     then (if 0 < x then PInf else NInf)
     else Fin (of_int (round_even (x / 2 powi e)) * 2 powi e))"
    using nz by (simp only: round_double_def Let_def e_def if_False)
  also have "\<dots> = Fin x"
    using big by (simp only: y if_False)
  finally show ?thesis
    by (simp only: x_def)
qed

lemma ilog2_unique:
  assumes "0 < x" and lo: "2 powi k \<le> x" and hi: "x < 2 powi (k + 1)"
  shows "ilog2 x = k"
proof (rule antisym)
  from hi show "ilog2 x \<le> k"
    using ilog2_less [OF assms(1), of "k + 1"] by simp
  show "k \<le> ilog2 x"
  proof (rule ccontr)
    assume "\<not> k \<le> ilog2 x"
    then have "(2::rat) powi (ilog2 x + 1) \<le> 2 powi k"
      by (intro power_int_increasing) simp_all
    with ilog2_bounds(2) [OF assms(1)] lo show False
      by simp
  qed
qed

lemma round_double_eq:
  assumes lo: "2 powi k \<le> \<bar>x\<bar>" and hi: "\<bar>x\<bar> < 2 powi (k + 1)"
    and e: "e = max k (- 1022) - 52"
    and m: "round_even (x / 2 powi e) = m"
    and fin: "\<bar>rat_of_int m * 2 powi e\<bar> < 2 powi 1024"
  shows "round_double x = Fin (of_int m * 2 powi e)"
proof -
  have "(0::rat) < 2 powi k"
    by simp
  then have pos: "0 < \<bar>x\<bar>"
    using lo by (rule less_le_trans)
  then have nz: "x \<noteq> 0"
    by simp
  from pos lo hi have "ilog2 \<bar>x\<bar> = k"
    by (rule ilog2_unique)
  with e have e': "max (ilog2 \<bar>x\<bar>) (- 1022) - 52 = e"
    by simp
  from fin have small: "\<not> 2 powi 1024 \<le> \<bar>rat_of_int m * 2 powi e\<bar>"
    by (simp only: not_le)
  have "round_double x =
    (if 2 powi 1024 \<le> \<bar>rat_of_int (round_even (x / 2 powi e)) * 2 powi e\<bar>
     then (if 0 < x then PInf else NInf)
     else Fin (of_int (round_even (x / 2 powi e)) * 2 powi e))"
    using nz by (simp only: round_double_def Let_def e' if_False)
  also have "\<dots> = Fin (of_int m * 2 powi e)"
    using small by (simp only: m if_False)
  finally show ?thesis .
qed

lemma round_double_at:
  assumes "round_even (x / 2 powi e) = m"
    and "2 powi k \<le> \<bar>x\<bar>" and "\<bar>x\<bar> < 2 powi (k + 1)"
    and "e = max k (- 1022) - 52"
    and "\<bar>rat_of_int m * 2 powi e\<bar> < 2 powi 1024"
    and "y = of_int m * 2 powi e"
  shows "round_double x = Fin y"
  using round_double_eq [OF assms(2,3,4,1,5)] assms(6) by simp

lemma js_add_at:
  assumes "round_even ((a + b) / 2 powi e) = m"
    and "2 powi k \<le> \<bar>a + b\<bar>" and "\<bar>a + b\<bar> < 2 powi (k + 1)"
    and "e = max k (- 1022) - 52"
    and "\<bar>rat_of_int m * 2 powi e\<bar> < 2 powi 1024"
    and "y = of_int m * 2 powi e"
  shows "js_add (Fin a) (Fin b) = Fin y"
  using round_double_at [OF assms] by simp

lemma round_even_magnitude:
  assumes "\<bar>z\<bar> < 2 ^ 53"
  shows "\<bar>round_even z\<bar> \<le> 2 ^ 53"
proof -
  from assms have "z < 2 ^ 53" and "- (2 ^ 53) < z"
    by (simp_all add: abs_less_iff)
  then have "\<lfloor>z\<rfloor> < 2 ^ 53" and "- (2 ^ 53) \<le> \<lfloor>z\<rfloor>"
    by (simp_all add: floor_less_iff le_floor_iff)
  with round_even_bounds [of z] show ?thesis
    by linarith
qed

lemma round_double_large_whole:
  assumes r: "round_double x = Fin y" and big: "2 ^ 53 \<le> \<bar>y\<bar>"
  shows "whole y"
proof -
  define e where "e = max (ilog2 \<bar>x\<bar>) (- 1022) - 52"
  define m where "m = round_even (x / 2 powi e)"
  from r big have nz: "x \<noteq> 0"
    by (auto simp: round_double_def)
  with r have y: "y = of_int m * 2 powi e"
    by (simp add: round_double_def Let_def e_def m_def split: if_splits)
  from nz have "\<bar>x\<bar> < 2 powi (ilog2 \<bar>x\<bar> + 1)"
    by (intro ilog2_bounds(2)) simp
  also have "\<dots> \<le> 2 powi (e + 53)"
    by (intro power_int_increasing) (simp_all add: e_def)
  also have "\<dots> = 2 powi e * 2 ^ 53"
    by (simp add: power_int_add)
  finally have "\<bar>x\<bar> / 2 powi e < 2 ^ 53"
    by (simp add: pos_divide_less_eq mult.commute)
  then have "\<bar>x / 2 powi e\<bar> < 2 ^ 53"
    by simp
  then have m: "\<bar>m\<bar> \<le> 2 ^ 53"
    unfolding m_def by (rule round_even_magnitude)
  have "0 \<le> e"
  proof (rule ccontr)
    assume "\<not> 0 \<le> e"
    then have "(2::rat) powi e \<le> 2 powi (- 1)"
      by (intro power_int_increasing) simp_all
    then have half: "(2::rat) powi e \<le> 1 / 2"
      by simp
    from m have "\<bar>rat_of_int m\<bar> \<le> 2 ^ 53"
      by (metis of_int_abs of_int_le_numeral_power_cancel_iff)
    with half have "\<bar>rat_of_int m\<bar> * 2 powi e \<le> 2 ^ 53 * (1 / 2)"
      by (intro mult_mono) simp_all
    then have "\<bar>y\<bar> \<le> 2 ^ 53 * (1 / 2)"
      by (simp add: y abs_mult)
    with big show False
      by simp
  qed
  then have "(2::rat) powi e = 2 ^ nat e"
    by (simp add: power_int_def)
  then have "y = of_int (m * 2 ^ nat e)"
    by (simp add: y)
  then show ?thesis
    by (simp only: whole_def floor_of_int)
qed

section \<open>The total weight\<close>

text \<open>
  The doubles of the example: \<open>d01\<close>, \<open>d02\<close> and \<open>d03\<close> are what the literals \<open>0.1\<close>,
  \<open>0.2\<close> and \<open>0.3\<close> denote, and the sums below are \<open>0.1 + 0.2 = 0.30000000000000004\<close>,
  \<open>0.30000000000000004 + 0.3 = 0.6000000000000001\<close>, \<open>0.3 + 0.2 = 0.5\<close> and
  \<open>0.5 + 0.1 = 0.6\<close>.
\<close>

lemma double_tenth: "round_double (1 / 10) = Fin d01"
proof (rule round_double_at [where k = "- 4" and e = "- 56" and m = 7205759403792794])
  show "round_even ((1 / 10) / 2 powi (- 56)) = 7205759403792794"
    by code_simp
qed (simp_all add: d01_def power_int_minus)

lemma double_fifth: "round_double (2 / 10) = Fin d02"
proof (rule round_double_at [where k = "- 3" and e = "- 55" and m = 7205759403792794])
  show "round_even ((2 / 10) / 2 powi (- 55)) = 7205759403792794"
    by code_simp
qed (simp_all add: d02_def power_int_minus)

lemma double_three_tenths: "round_double (3 / 10) = Fin d03"
proof (rule round_double_at [where k = "- 2" and e = "- 54" and m = 5404319552844595])
  show "round_even ((3 / 10) / 2 powi (- 54)) = 5404319552844595"
    by code_simp
qed (simp_all add: d03_def power_int_minus)

lemma add_0_d01: "js_add (Fin 0) (Fin d01) = Fin d01"
proof (rule js_add_at [where k = "- 4" and e = "- 56" and m = 7205759403792794])
  show "round_even ((0 + d01) / 2 powi (- 56)) = 7205759403792794"
    by code_simp
qed (simp_all add: d01_def power_int_minus)

lemma add_d01_d02: "js_add (Fin d01) (Fin d02) = Fin (1351079888211149 / 4503599627370496)"
proof (rule js_add_at [where k = "- 2" and e = "- 54" and m = 5404319552844596])
  show "round_even ((d01 + d02) / 2 powi (- 54)) = 5404319552844596"
    by code_simp
qed (simp_all add: d01_def d02_def power_int_minus)

lemma add_d01_d02_d03: "js_add (Fin (1351079888211149 / 4503599627370496)) (Fin d03) = Fin (1351079888211149 / 2251799813685248)"
proof (rule js_add_at [where k = "- 1" and e = "- 53" and m = 5404319552844596])
  show "round_even ((1351079888211149 / 4503599627370496 + d03) / 2 powi (- 53)) = 5404319552844596"
    by code_simp
qed (simp_all add: d03_def power_int_minus)

lemma add_0_d03: "js_add (Fin 0) (Fin d03) = Fin d03"
proof (rule js_add_at [where k = "- 2" and e = "- 54" and m = 5404319552844595])
  show "round_even ((0 + d03) / 2 powi (- 54)) = 5404319552844595"
    by code_simp
qed (simp_all add: d03_def power_int_minus)

lemma add_d03_d02: "js_add (Fin d03) (Fin d02) = Fin (1 / 2)"
proof (rule js_add_at [where k = "- 1" and e = "- 53" and m = 4503599627370496])
  show "round_even ((d03 + d02) / 2 powi (- 53)) = 4503599627370496"
    by code_simp
qed (simp_all add: d02_def d03_def power_int_minus)

lemma add_d03_d02_d01: "js_add (Fin (1 / 2)) (Fin d01) = Fin (5404319552844595 / 9007199254740992)"
proof (rule js_add_at [where k = "- 1" and e = "- 53" and m = 5404319552844595])
  show "round_even ((1 / 2 + d01) / 2 powi (- 53)) = 5404319552844595"
    by code_simp
qed (simp_all add: d01_def power_int_minus)

lemma totalWeight_three:
  "totalWeight [weighing a, weighing b, weighing c] =
     js_add (js_add (js_add (Fin 0) (Fin (or_zero (Some a)))) (Fin (or_zero (Some b))))
       (Fin (or_zero (Some c)))"
  by (simp add: totalWeight_def weighing_def)

lemma or_zero_examples:
  "or_zero (Some d01) = d01" "or_zero (Some d02) = d02" "or_zero (Some d03) = d03"
  by (simp_all add: or_zero_def)

text \<open>
  C5, as stated, fails: the weights \<open>0.1\<close>, \<open>0.2\<close>, \<open>0.3\<close> total
  \<open>0.6000000000000001\<close> in this order and \<open>0.6\<close> in the reverse order.
\<close>

theorem totalWeight_reorder_counterexample:
  "totalWeight [weighing d01, weighing d02, weighing d03] = Fin (1351079888211149 / 2251799813685248) \<and>
   totalWeight (rev [weighing d01, weighing d02, weighing d03]) = Fin (5404319552844595 / 9007199254740992) \<and>
   totalWeight (rev [weighing d01, weighing d02, weighing d03]) \<noteq>
     totalWeight [weighing d01, weighing d02, weighing d03]"
proof -
  have a: "totalWeight [weighing d01, weighing d02, weighing d03] = Fin (1351079888211149 / 2251799813685248)"
    by (simp only: totalWeight_three or_zero_examples add_0_d01 add_d01_d02 add_d01_d02_d03)
  have b: "totalWeight (rev [weighing d01, weighing d02, weighing d03]) = Fin (5404319552844595 / 9007199254740992)"
    by (simp only: rev.simps append.simps totalWeight_three or_zero_examples add_0_d03 add_d03_d02 add_d03_d02_d01)
  have c: "Fin (5404319552844595 / 9007199254740992) \<noteq> Fin (1351079888211149 / 2251799813685248)"
    by simp
  from a b c show ?thesis
    by (simp only: simp_thms)
qed

lemma js_add_whole:
  assumes "whole a" and "whole w" and "\<bar>a\<bar> + \<bar>w\<bar> < 2 ^ 53"
  shows "js_add (Fin a) (Fin w) = Fin (a + w)"
proof -
  from assms(1,2) have "of_int \<lfloor>a\<rfloor> = a" and "of_int \<lfloor>w\<rfloor> = w"
    unfolding whole_def by blast+
  then have s: "a + w = of_int (\<lfloor>a\<rfloor> + \<lfloor>w\<rfloor>)"
    by (simp only: of_int_add)
  have "\<bar>a + w\<bar> < 2 ^ 53"
    using assms(3) by linarith
  then have "(of_int \<bar>\<lfloor>a\<rfloor> + \<lfloor>w\<rfloor>\<bar> :: rat) < of_int (2 ^ 53)"
    by (simp only: s of_int_abs of_int_power of_int_numeral)
  then have "\<bar>\<lfloor>a\<rfloor> + \<lfloor>w\<rfloor>\<bar> < 2 ^ 53"
    by (simp only: of_int_less_iff)
  then have "round_double (of_int (\<lfloor>a\<rfloor> + \<lfloor>w\<rfloor>)) = Fin (of_int (\<lfloor>a\<rfloor> + \<lfloor>w\<rfloor>))"
    by (rule round_double_of_int)
  then show ?thesis
    by (simp only: js_add.simps s)
qed

lemma whole_add: "whole a \<Longrightarrow> whole w \<Longrightarrow> whole (a + w)"
  by (metis whole_def of_int_add floor_of_int)

lemma fold_whole:
  "whole a \<Longrightarrow> \<forall>w\<in>set ws. whole w \<Longrightarrow> \<bar>a\<bar> + (\<Sum>w\<leftarrow>ws. \<bar>w\<bar>) < 2 ^ 53 \<Longrightarrow>
   foldl (\<lambda>sum w. js_add sum (Fin w)) (Fin a) ws = Fin (a + sum_list ws)"
proof (induction ws arbitrary: a)
  case Nil
  then show ?case by simp
next
  case (Cons w ws)
  have abs: "0 \<le> (\<Sum>w\<leftarrow>ws. \<bar>w\<bar>)"
    by (rule sum_list_nonneg) auto
  from Cons.prems have w: "whole w" and rest: "\<forall>w\<in>set ws. whole w"
    by simp_all
  from Cons.prems(3) abs have "\<bar>a\<bar> + \<bar>w\<bar> < 2 ^ 53"
    by simp
  with Cons.prems(1) w have step: "js_add (Fin a) (Fin w) = Fin (a + w)"
    by (rule js_add_whole)
  have "\<bar>a + w\<bar> + (\<Sum>w\<leftarrow>ws. \<bar>w\<bar>) < 2 ^ 53"
    using Cons.prems(3) by simp
  with Cons.IH [OF whole_add [OF Cons.prems(1) w] rest]
  have "foldl (\<lambda>sum w. js_add sum (Fin w)) (Fin (a + w)) ws = Fin (a + w + sum_list ws)"
    by simp
  then show ?case
    by (simp only: foldl_Cons step sum_list.Cons add.assoc)
qed

lemma totalWeight_weights:
  "totalWeight cs = foldl (\<lambda>sum w. js_add sum (Fin w)) (Fin 0) (map (\<lambda>f. or_zero (weight f)) cs)"
  by (simp add: totalWeight_def foldl_map)

lemma totalWeight_whole_exact:
  assumes "\<forall>f\<in>set cs. whole (or_zero (weight f))" and "(\<Sum>f\<leftarrow>cs. \<bar>or_zero (weight f)\<bar>) < 2 ^ 53"
  shows "totalWeight cs = Fin (\<Sum>f\<leftarrow>cs. or_zero (weight f))"
proof -
  have "whole 0"
    by (simp add: whole_def)
  moreover from assms(1) have "\<forall>w\<in>set (map (\<lambda>f. or_zero (weight f)) cs). whole w"
    by simp
  moreover from assms(2) have "\<bar>0\<bar> + (\<Sum>w\<leftarrow>map (\<lambda>f. or_zero (weight f)) cs. \<bar>w\<bar>) < 2 ^ 53"
    by (simp add: comp_def)
  ultimately show ?thesis
    unfolding totalWeight_weights by (simp only: fold_whole add_0)
qed

lemma sum_list_perm:
  fixes g :: "'a \<Rightarrow> rat"
  assumes "mset xs = mset ys"
  shows "(\<Sum>x\<leftarrow>xs. g x) = (\<Sum>x\<leftarrow>ys. g x)"
proof -
  from assms have "mset (map g xs) = mset (map g ys)"
    by simp
  then have "sum_mset (mset (map g xs)) = sum_mset (mset (map g ys))"
    by (rule arg_cong)
  then show ?thesis
    by (simp only: sum_mset_sum_list)
qed

text \<open>
  C5, amended. \<open>totalWeight\<close> adds the weights (missing as 0) from left to right,
  starting from 0, each addition rounding to a double. When every weight is a whole
  number and the magnitudes add up to less than \<open>2 ^ 53\<close>, no addition rounds:
  \<open>totalWeight\<close> is the exact sum, and every reordering of the sequence gives the same
  value.
\<close>

theorem totalWeight_whole:
  "totalWeight [] = Fin 0 \<and>
   totalWeight (cs @ [f]) = js_add (totalWeight cs) (Fin (or_zero (weight f))) \<and>
   ((\<forall>f\<in>set cs. whole (or_zero (weight f))) \<and> (\<Sum>f\<leftarrow>cs. \<bar>or_zero (weight f)\<bar>) < 2 ^ 53 \<longrightarrow>
      totalWeight cs = Fin (\<Sum>f\<leftarrow>cs. or_zero (weight f)) \<and>
      (\<forall>cs'. mset cs' = mset cs \<longrightarrow> totalWeight cs' = totalWeight cs))"
proof (intro conjI impI allI)
  show "totalWeight [] = Fin 0"
    by (simp add: totalWeight_def)
  show "totalWeight (cs @ [f]) = js_add (totalWeight cs) (Fin (or_zero (weight f)))"
    by (simp add: totalWeight_def)
next
  assume h: "(\<forall>f\<in>set cs. whole (or_zero (weight f))) \<and> (\<Sum>f\<leftarrow>cs. \<bar>or_zero (weight f)\<bar>) < 2 ^ 53"
  then show "totalWeight cs = Fin (\<Sum>f\<leftarrow>cs. or_zero (weight f))"
    by (simp add: totalWeight_whole_exact)
next
  fix cs'
  assume h: "(\<forall>f\<in>set cs. whole (or_zero (weight f))) \<and> (\<Sum>f\<leftarrow>cs. \<bar>or_zero (weight f)\<bar>) < 2 ^ 53"
    and p: "mset cs' = mset cs"
  from p have set: "set cs' = set cs"
    by (rule mset_eq_setD)
  from p have sums: "(\<Sum>f\<leftarrow>cs'. \<bar>or_zero (weight f)\<bar>) = (\<Sum>f\<leftarrow>cs. \<bar>or_zero (weight f)\<bar>)"
    "(\<Sum>f\<leftarrow>cs'. or_zero (weight f)) = (\<Sum>f\<leftarrow>cs. or_zero (weight f))"
    by (rule sum_list_perm)+
  from h set sums have "totalWeight cs' = Fin (\<Sum>f\<leftarrow>cs'. or_zero (weight f))"
    by (intro totalWeight_whole_exact) simp_all
  with h sums show "totalWeight cs' = totalWeight cs"
    by (simp add: totalWeight_whole_exact)
qed

theorem totalWeight_whole_witness:
  "totalWeight [trout, minnow, weighing 5] = Fin 8 \<and>
   totalWeight [weighing 5, trout, minnow] = Fin 8"
proof -
  have m: "mset [weighing 5, trout, minnow] = mset [trout, minnow, weighing 5]"
    by simp
  have w: "\<forall>f\<in>set [trout, minnow, weighing 5]. whole (or_zero (weight f))"
    by (simp add: trout_def minnow_def weighing_def whole_def or_zero_def)
  have b: "(\<Sum>f\<leftarrow>[trout, minnow, weighing 5]. \<bar>or_zero (weight f)\<bar>) < 2 ^ 53"
    by (simp add: trout_def minnow_def weighing_def or_zero_def)
  have v: "(\<Sum>f\<leftarrow>[trout, minnow, weighing 5]. or_zero (weight f)) = 8"
    by (simp add: trout_def minnow_def weighing_def or_zero_def)
  from totalWeight_whole [of "[trout, minnow, weighing 5]"] w b
  have exact: "totalWeight [trout, minnow, weighing 5] = Fin 8"
    and perm: "\<forall>cs'. mset cs' = mset [trout, minnow, weighing 5] \<longrightarrow>
      totalWeight cs' = totalWeight [trout, minnow, weighing 5]"
    unfolding v by blast+
  from perm m have "totalWeight [weighing 5, trout, minnow] = totalWeight [trout, minnow, weighing 5]"
    by blast
  with exact show ?thesis
    by (simp only: simp_thms)
qed

section \<open>The average weight\<close>

lemma is_digit_char_of: "d < 10 \<Longrightarrow> is_digit (char_of (48 + d :: nat))"
  by (simp add: is_digit_def)

lemma digit_not_point: "is_digit c \<Longrightarrow> c \<noteq> CHR ''.''"
  by (auto simp: is_digit_def)

lemma digit_not_minus: "is_digit c \<Longrightarrow> c \<noteq> CHR ''-''"
  by (auto simp: is_digit_def)

lemma digits_nonempty: "digits n \<noteq> []"
  by (subst digits.simps) simp

lemma digits_all: "list_all is_digit (digits n)"
proof (induction n rule: digits.induct)
  case (1 n)
  show ?case
  proof (cases "n < 10")
    case True
    then show ?thesis
      by (subst digits.simps) (simp add: is_digit_char_of)
  next
    case False
    with 1 show ?thesis
      by (subst digits.simps) (simp add: is_digit_char_of)
  qed
qed

lemma digits_value_snoc: "digits_value (s @ [c]) = 10 * digits_value s + (of_char c - 48)"
  by (simp add: digits_value_def)

lemma digits_value_digits: "digits_value (digits n) = n"
proof (induction n rule: digits.induct)
  case (1 n)
  show ?case
  proof (cases "n < 10")
    case True
    then show ?thesis
      by (subst digits.simps) (simp add: digits_value_def)
  next
    case False
    with 1 have "digits_value (digits (n div 10)) = n div 10"
      by simp
    with False show ?thesis
      by (subst digits.simps) (simp add: digits_value_snoc)
  qed
qed

lemma foldl_digits_from:
  "foldl (\<lambda>a c. 10 * a + (of_char c - 48)) acc b =
     acc * 10 ^ length b + foldl (\<lambda>a c. 10 * a + (of_char c - 48)) (0::nat) b"
proof (induction b rule: rev_induct)
  case Nil
  then show ?case by simp
next
  case (snoc c b)
  then show ?case
    by (simp add: algebra_simps)
qed

lemma digits_value_append:
  "digits_value (a @ b) = digits_value a * 10 ^ length b + digits_value b"
  unfolding digits_value_def foldl_append by (rule foldl_digits_from)

lemma digits_value_zeros: "digits_value (replicate j (CHR ''0'') @ s) = digits_value s"
proof -
  have "digits_value (replicate j (CHR ''0'')) = 0"
    by (induction j) (simp_all add: digits_value_def)
  then show ?thesis
    by (simp add: digits_value_append)
qed

lemma padStart_digits:
  "list_all is_digit s \<Longrightarrow> list_all is_digit (padStart s n (CHR ''0''))"
  by (auto simp: padStart_def list_all_iff is_digit_def)

lemma padStart_value: "digits_value (padStart s n (CHR ''0'')) = digits_value s"
  by (simp add: padStart_def digits_value_zeros)

lemma padStart_length: "n \<le> length (padStart s n c)"
  by (simp add: padStart_def)

lemma read_unsigned_point:
  assumes "a \<noteq> []" "list_all is_digit a" "b \<noteq> []" "list_all is_digit b"
  shows "read_unsigned (a @ ''.'' @ b) =
    Some (of_nat (digits_value a) + of_nat (digits_value b) / 10 ^ length b)"
proof -
  from assms(2) have no: "\<forall>c\<in>set a. c \<noteq> CHR ''.''"
    by (auto simp: list_all_iff dest: digit_not_point)
  then have t: "takeWhile (\<lambda>c. c \<noteq> CHR ''.'') (a @ ''.'' @ b) = a"
    by (simp add: takeWhile_append2 takeWhile_append)
  from no have d: "dropWhile (\<lambda>c. c \<noteq> CHR ''.'') (a @ ''.'' @ b) = ''.'' @ b"
    by (simp add: dropWhile_append)
  show ?thesis
    unfolding read_unsigned_def Let_def t d using assms
    by (simp add: read_digits_def)
qed

lemma fixed_body:
  fixes n f :: nat
  assumes "0 < f"
  defines "m \<equiv> padStart (digits n) (f + 1) (CHR ''0'')"
  defines "a \<equiv> take (length m - f) m" and "b \<equiv> drop (length m - f) m"
  shows "a \<noteq> []" and "list_all is_digit a" and "length b = f" and "list_all is_digit b"
    and "read_unsigned (a @ ''.'' @ b) = Some (of_nat n / 10 ^ f)"
proof -
  have len: "f + 1 \<le> length m"
    unfolding m_def by (rule padStart_length)
  have all: "list_all is_digit m"
    unfolding m_def by (intro padStart_digits digits_all)
  have val: "digits_value m = n"
    unfolding m_def by (simp add: padStart_value digits_value_digits)
  from len show a: "a \<noteq> []"
    by (auto simp: a_def)
  from all show da: "list_all is_digit a"
    by (auto simp: a_def list_all_iff dest: in_set_takeD)
  from len show lb: "length b = f"
    by (simp add: b_def)
  from all show db: "list_all is_digit b"
    by (auto simp: b_def list_all_iff dest: in_set_dropD)
  from lb assms(1) have b: "b \<noteq> []"
    by auto
  have "a @ b = m"
    by (simp add: a_def b_def)
  with digits_value_append [of a b] have "n = digits_value a * 10 ^ f + digits_value b"
    by (simp only: val lb)
  then have "(of_nat n :: rat) = of_nat (digits_value a) * 10 ^ f + of_nat (digits_value b)"
    by (metis of_nat_add of_nat_mult of_nat_numeral of_nat_power)
  then have "(of_nat n :: rat) / 10 ^ f = of_nat (digits_value a) + of_nat (digits_value b) / 10 ^ f"
    by (simp add: field_simps)
  with read_unsigned_point [OF a da b db] show "read_unsigned (a @ ''.'' @ b) = Some (of_nat n / 10 ^ f)"
    by (simp add: lb)
qed

lemma read_decimal_unsigned:
  assumes "a \<noteq> []" and "list_all is_digit a"
  shows "read_decimal (a @ s) = read_unsigned (a @ s)"
    and "read_decimal (''-'' @ a @ s) = map_option uminus (read_unsigned (a @ s))"
proof -
  from assms obtain c r where a: "a = c # r" and "is_digit c"
    by (cases a) auto
  then have "c \<noteq> CHR ''-''"
    by (simp add: digit_not_minus)
  with a show "read_decimal (a @ s) = read_unsigned (a @ s)"
    by (simp add: read_decimal_def)
  show "read_decimal (''-'' @ a @ s) = map_option uminus (read_unsigned (a @ s))"
    by (simp add: read_decimal_def)
qed

lemma fraction_digits_point:
  assumes "list_all is_digit a"
  shows "fraction_digits (a @ ''.'' @ b) = length b"
    and "fraction_digits (''-'' @ a @ ''.'' @ b) = length b"
proof -
  from assms have no: "\<forall>c\<in>set a. c \<noteq> CHR ''.''"
    by (auto simp: list_all_iff dest: digit_not_point)
  then have d: "dropWhile (\<lambda>c. c \<noteq> CHR ''.'') (a @ ''.'' @ b) = ''.'' @ b"
    by (simp add: dropWhile_append)
  then show "fraction_digits (a @ ''.'' @ b) = length b"
    by (simp add: fraction_digits_def)
  from d show "fraction_digits (''-'' @ a @ ''.'' @ b) = length b"
    by (simp add: fraction_digits_def)
qed

lemma toFixed_value:
  fixes v :: rat and f :: nat
  assumes "\<bar>v\<bar> < 10 ^ 21" and "0 < f"
  defines "n \<equiv> nat \<lfloor>\<bar>v\<bar> * 10 ^ f + 1 / 2\<rfloor>"
  shows "\<exists>s. toFixed f (Fin v) = Chars s \<and> fraction_digits s = f \<and>
    read_decimal s = Some (if v < 0 then - (of_nat n / 10 ^ f) else of_nat n / 10 ^ f)"
proof -
  define m where "m = padStart (digits n) (f + 1) (CHR ''0'')"
  define a where "a = take (length m - f) m"
  define b where "b = drop (length m - f) m"
  note body = fixed_body [OF assms(2), of n, folded m_def, folded a_def b_def]
  have t: "toFixed f (Fin v) = Chars ((if v < 0 then ''-'' else []) @ a @ ''.'' @ b)"
    using assms(1,2) by (simp add: toFixed_def Let_def n_def m_def a_def b_def)
  show ?thesis
  proof (cases "v < 0")
    case True
    with t have "toFixed f (Fin v) = Chars (''-'' @ a @ ''.'' @ b)"
      by simp
    moreover have "fraction_digits (''-'' @ a @ ''.'' @ b) = f"
      by (simp only: fraction_digits_point(2) [OF body(2)] body(3))
    moreover have "read_decimal (''-'' @ a @ ''.'' @ b) = Some (- (of_nat n / 10 ^ f))"
      by (simp only: read_decimal_unsigned(2) [OF body(1,2)] body(5) option.map)
    ultimately show ?thesis
      using True by simp
  next
    case False
    with t have "toFixed f (Fin v) = Chars (a @ ''.'' @ b)"
      by simp
    moreover have "fraction_digits (a @ ''.'' @ b) = f"
      by (simp only: fraction_digits_point(1) [OF body(2)] body(3))
    moreover have "read_decimal (a @ ''.'' @ b) = Some (of_nat n / 10 ^ f)"
      by (simp only: read_decimal_unsigned(1) [OF body(1,2)] body(5))
    ultimately show ?thesis
      using False by simp
  qed
qed

lemma nearest_half:
  fixes z :: rat
  assumes "0 \<le> z"
  shows "\<bar>of_nat (nat \<lfloor>z + 1 / 2\<rfloor>) - z\<bar> \<le> 1 / 2"
proof -
  from assms have "0 \<le> \<lfloor>z + 1 / 2\<rfloor>"
    by simp
  then have "(of_nat (nat \<lfloor>z + 1 / 2\<rfloor>) :: rat) = of_int \<lfloor>z + 1 / 2\<rfloor>"
    by simp
  moreover have "of_int \<lfloor>z + 1 / 2\<rfloor> \<le> z + 1 / 2" and "z + 1 / 2 < of_int \<lfloor>z + 1 / 2\<rfloor> + 1"
    by linarith+
  ultimately show ?thesis
    by linarith
qed

lemma whole_of_nat: "whole (of_nat n)" and whole_minus_of_nat: "whole (- of_nat n)"
  by (simp_all add: whole_def)

lemma toFixed_rounded:
  fixes v :: rat and f :: nat
  assumes "\<bar>v\<bar> < 10 ^ 21" and "0 < f"
  shows "rounded_to f v (toFixed f (Fin v))"
    and "\<exists>s. toFixed f (Fin v) = Chars s \<and> fraction_digits s = f"
proof -
  define n where "n = nat \<lfloor>\<bar>v\<bar> * 10 ^ f + 1 / 2\<rfloor>"
  define r :: rat where "r = (if v < 0 then - (of_nat n / 10 ^ f) else of_nat n / 10 ^ f)"
  from toFixed_value [OF assms, folded n_def, folded r_def]
  obtain s where s: "toFixed f (Fin v) = Chars s" "fraction_digits s = f" "read_decimal s = Some r"
    by blast
  from s(1,2) show "\<exists>s. toFixed f (Fin v) = Chars s \<and> fraction_digits s = f"
    by blast
  have "r * 10 ^ f = (if v < 0 then - of_nat n else of_nat n)"
    by (simp add: r_def)
  then have w: "whole (r * 10 ^ f)"
    by (simp add: whole_of_nat whole_minus_of_nat)
  have "\<bar>of_nat n - \<bar>v\<bar> * 10 ^ f\<bar> \<le> 1 / 2"
    unfolding n_def by (rule nearest_half) simp
  then have "\<bar>of_nat n - \<bar>v\<bar> * 10 ^ f\<bar> / 10 ^ f \<le> (1 / 2) / 10 ^ f"
    by (rule divide_right_mono) simp
  moreover have "of_nat n / 10 ^ f - \<bar>v\<bar> = (of_nat n - \<bar>v\<bar> * 10 ^ f) / 10 ^ f"
    by (simp add: diff_divide_distrib)
  then have "\<bar>of_nat n - \<bar>v\<bar> * 10 ^ f\<bar> / 10 ^ f = \<bar>of_nat n / 10 ^ f - \<bar>v\<bar>\<bar>"
    by simp
  ultimately have "\<bar>of_nat n / 10 ^ f - \<bar>v\<bar>\<bar> \<le> 1 / (2 * 10 ^ f)"
    by simp
  then have "\<bar>r - v\<bar> \<le> 1 / (2 * 10 ^ f)"
    by (auto simp: r_def abs_if split: if_splits)
  with w s show "rounded_to f v (toFixed f (Fin v))"
    by (simp add: rounded_to_def)
qed

lemma js_add_Fin_not_NaN: "a \<noteq> NaN \<Longrightarrow> js_add a (Fin w) \<noteq> NaN"
  by (cases a) (simp_all add: round_double_not_NaN)

lemma fold_not_NaN:
  "a \<noteq> NaN \<Longrightarrow> foldl (\<lambda>sum fish. js_add sum (Fin (or_zero (weight fish)))) a cs \<noteq> NaN"
  by (induction cs arbitrary: a) (simp_all add: js_add_Fin_not_NaN)

lemma totalWeight_not_NaN: "totalWeight cs \<noteq> NaN"
  by (simp add: totalWeight_def fold_not_NaN)

lemma toFixed_large:
  "10 ^ 21 \<le> \<bar>v\<bar> \<Longrightarrow> whole v \<Longrightarrow> rounded_to 2 v (toFixed 2 (Fin v))"
proof -
  assume big: "10 ^ 21 \<le> \<bar>v\<bar>" and w: "whole v"
  from w have v: "of_int \<lfloor>v\<rfloor> = v"
    unfolding whole_def .
  have "of_int (\<lfloor>v\<rfloor> * 10 ^ 2) = rat_of_int \<lfloor>v\<rfloor> * 10 ^ 2"
    by simp
  then have "v * 10 ^ 2 = of_int (\<lfloor>v\<rfloor> * 10 ^ 2)"
    by (simp only: v)
  then have "whole (v * 10 ^ 2)"
    by (simp only: whole_def floor_of_int)
  with big show ?thesis
    by (simp add: rounded_to_def toFixed_def)
qed

lemma quotient_rounded:
  assumes "n \<noteq> 0" and "js_div t (Fin (of_nat n)) = Fin q"
  shows "rounded_to 2 q (toFixed 2 (Fin q))"
proof (cases "\<bar>q\<bar> < 10 ^ 21")
  case True
  then show ?thesis
    by (intro toFixed_rounded(1)) simp_all
next
  case False
  from assms obtain a where "t = Fin a" and r: "round_double (a / of_nat n) = Fin q"
    by (cases t) (auto split: if_splits)
  have "(2::rat) ^ 53 \<le> 10 ^ 21"
    by simp
  with False have "2 ^ 53 \<le> \<bar>q\<bar>"
    by linarith
  with r have "whole q"
    by (rule round_double_large_whole)
  with False show ?thesis
    by (intro toFixed_large) simp_all
qed

lemma quotient_large_whole:
  assumes "n \<noteq> 0" and "js_div t (Fin (of_nat n)) = Fin q" and "10 ^ 21 \<le> \<bar>q\<bar>"
  shows "whole q"
proof -
  from assms(1,2) obtain a where "t = Fin a" and r: "round_double (a / of_nat n) = Fin q"
    by (cases t) (auto split: if_splits)
  have "(2::rat) ^ 53 \<le> 10 ^ 21"
    by simp
  with assms(3) have "2 ^ 53 \<le> \<bar>q\<bar>"
    by linarith
  with r show ?thesis
    by (rule round_double_large_whole)
qed

text \<open>
  The example of a quotient that the division rounds across a tie of the second decimal:
  the weights \<open>0.225\<close>, \<open>0\<close> and \<open>0\<close>. The total is the double \<open>0.225\<close>, which is
  slightly above \<open>225 / 1000\<close>; a third of it is slightly above \<open>0.075\<close>, and the
  nearest double is \<open>0.07499999999999999722\<close>.
\<close>

lemma double_0225: "round_double (225 / 1000) = Fin d0225"
proof (rule round_double_at [where k = "- 3" and e = "- 55" and m = 8106479329266893])
  show "round_even ((225 / 1000) / 2 powi (- 55)) = 8106479329266893"
    by code_simp
qed (simp_all add: d0225_def power_int_minus)

lemma add_0_d0225: "js_add (Fin 0) (Fin d0225) = Fin d0225"
proof (rule js_add_at [where k = "- 3" and e = "- 55" and m = 8106479329266893])
  show "round_even ((0 + d0225) / 2 powi (- 55)) = 8106479329266893"
    by code_simp
qed (simp_all add: d0225_def power_int_minus)

lemma add_d0225_0: "js_add (Fin d0225) (Fin 0) = Fin d0225"
proof (rule js_add_at [where k = "- 3" and e = "- 55" and m = 8106479329266893])
  show "round_even ((d0225 + 0) / 2 powi (- 55)) = 8106479329266893"
    by code_simp
qed (simp_all add: d0225_def power_int_minus)

lemma div_d0225_3: "js_div (Fin d0225) (Fin 3) = Fin (5404319552844595 / 72057594037927936)"
proof -
  have "round_double (d0225 / 3) = Fin (5404319552844595 / 72057594037927936)"
  proof (rule round_double_at [where k = "- 4" and e = "- 56" and m = 5404319552844595])
    show "round_even ((d0225 / 3) / 2 powi (- 56)) = 5404319552844595"
      by code_simp
  qed (simp_all add: d0225_def power_int_minus)
  then show ?thesis
    by simp
qed

lemma totalWeight_d0225: "totalWeight [weighing d0225, minnow, minnow] = Fin d0225"
proof -
  have "or_zero (weight (weighing d0225)) = d0225" and "or_zero (weight minnow) = 0"
    by (simp_all add: weighing_def minnow_def or_zero_def)
  then have "totalWeight [weighing d0225, minnow, minnow] =
      js_add (js_add (js_add (Fin 0) (Fin d0225)) (Fin 0)) (Fin 0)"
    by (simp only: totalWeight_def foldl_Cons foldl_Nil)
  then show ?thesis
    by (simp only: add_0_d0225 add_d0225_0)
qed

text \<open>
  C4, as stated, fails: for these three records the exact quotient of \<open>totalWeight\<close> by
  \<open>totalCatches\<close> rounded to 2 decimal places is \<open>0.08\<close>, and \<open>averageWeight\<close> is the
  string \<open>0.07\<close>.
\<close>

theorem averageWeight_exact_quotient_counterexample:
  "totalWeight [weighing d0225, minnow, minnow] = Fin d0225 \<and>
   totalCatches [weighing d0225, minnow, minnow] = 3 \<and>
   averageWeight [weighing d0225, minnow, minnow] = Str (Chars ''0.07'') \<and>
   \<not> rounded_to 2 (d0225 / 3) (Chars ''0.07'') \<and>
   rounded_to 2 (d0225 / 3) (Chars ''0.08'')"
proof -
  have count: "totalCatches [weighing d0225, minnow, minnow] = 3"
    by (simp add: totalCatches_def)
  have shown: "toFixed 2 (Fin (5404319552844595 / 72057594037927936)) = Chars ''0.07''"
    by code_simp
  have "Fin (of_nat (totalCatches [weighing d0225, minnow, minnow])) = Fin 3"
    by (simp add: count)
  then have avg: "averageWeight [weighing d0225, minnow, minnow] = Str (Chars ''0.07'')"
    by (simp only: averageWeight_def count totalWeight_d0225 div_d0225_3 shown) simp
  have low: "\<not> rounded_to 2 (d0225 / 3) (Chars ''0.07'')"
    by code_simp
  have high: "rounded_to 2 (d0225 / 3) (Chars ''0.08'')"
    by code_simp
  from totalWeight_d0225 count avg low high show ?thesis
    by (simp only: simp_thms)
qed

text \<open>
  C4, amended. \<open>averageWeight\<close> is the Number 0 for the empty sequence. Otherwise it is
  a string, made from the quotient of \<open>totalWeight\<close> by \<open>totalCatches\<close> in double
  precision, that is, from the exact quotient rounded to a double. While the double
  quotient is below \<open>10 ^ 21\<close> in magnitude, the string is that double rounded to 2
  decimal places, with exactly two digits after the point; from \<open>10 ^ 21\<close> on it is the
  text of the double itself, a whole number; a quotient that overflowed prints as
  \<open>Infinity\<close> or \<open>-Infinity\<close>, and the quotient is never NaN.
\<close>

theorem averageWeight_rounded:
  "(cs = [] \<longrightarrow> averageWeight cs = Num (Fin 0)) \<and>
   (cs \<noteq> [] \<longrightarrow>
      (\<forall>w. totalWeight cs = Fin w \<longrightarrow>
         js_div (totalWeight cs) (Fin (of_nat (totalCatches cs))) =
           round_double (w / of_nat (totalCatches cs))) \<and>
      (\<exists>t. averageWeight cs = Str t \<and>
         (case js_div (totalWeight cs) (Fin (of_nat (totalCatches cs))) of
            Fin q \<Rightarrow>
              rounded_to 2 q t \<and>
              (\<bar>q\<bar> < 10 ^ 21 \<longrightarrow> (\<exists>s. t = Chars s \<and> fraction_digits s = 2)) \<and>
              (10 ^ 21 \<le> \<bar>q\<bar> \<longrightarrow> t = Shortest q [] \<and> whole q)
          | PInf \<Rightarrow> t = Chars ''Infinity''
          | NInf \<Rightarrow> t = Chars ''-Infinity''
          | NaN \<Rightarrow> False)))"
proof (intro conjI impI allI)
  assume "cs = []"
  then show "averageWeight cs = Num (Fin 0)"
    by (simp add: averageWeight_def totalCatches_def)
next
  fix w
  assume "cs \<noteq> []" and "totalWeight cs = Fin w"
  then show "js_div (totalWeight cs) (Fin (of_nat (totalCatches cs))) =
      round_double (w / of_nat (totalCatches cs))"
    by (simp add: totalCatches_def)
next
  assume ne: "cs \<noteq> []"
  define n where "n = totalCatches cs"
  define d where "d = js_div (totalWeight cs) (Fin (of_nat n))"
  from ne have n: "n \<noteq> 0"
    by (simp add: n_def totalCatches_def)
  then have avg: "averageWeight cs = Str (toFixed 2 d)"
    by (simp add: averageWeight_def n_def d_def)
  have "case d of
      Fin q \<Rightarrow> rounded_to 2 q (toFixed 2 d) \<and>
        (\<bar>q\<bar> < 10 ^ 21 \<longrightarrow> (\<exists>s. toFixed 2 d = Chars s \<and> fraction_digits s = 2)) \<and>
        (10 ^ 21 \<le> \<bar>q\<bar> \<longrightarrow> toFixed 2 d = Shortest q [] \<and> whole q)
    | PInf \<Rightarrow> toFixed 2 d = Chars ''Infinity''
    | NInf \<Rightarrow> toFixed 2 d = Chars ''-Infinity''
    | NaN \<Rightarrow> False"
  proof (cases d)
    case (Fin q)
    with n have "rounded_to 2 q (toFixed 2 (Fin q))"
      unfolding d_def by (intro quotient_rounded)
    moreover have "\<bar>q\<bar> < 10 ^ 21 \<longrightarrow> (\<exists>s. toFixed 2 (Fin q) = Chars s \<and> fraction_digits s = 2)"
      by (auto intro: toFixed_rounded(2))
    moreover have "10 ^ 21 \<le> \<bar>q\<bar> \<longrightarrow> toFixed 2 (Fin q) = Shortest q [] \<and> whole q"
      using n Fin unfolding d_def by (auto simp: toFixed_def intro: quotient_large_whole)
    ultimately show ?thesis
      using Fin by simp
  next
    case PInf
    then show ?thesis
      by (simp add: toFixed_def)
  next
    case NInf
    then show ?thesis
      by (simp add: toFixed_def)
  next
    case NaN
    with n totalWeight_not_NaN [of cs] show ?thesis
      unfolding d_def
      by (cases "totalWeight cs") (auto simp: round_double_not_NaN split: if_splits)
  qed
  with avg show "\<exists>t. averageWeight cs = Str t \<and>
         (case js_div (totalWeight cs) (Fin (of_nat (totalCatches cs))) of
            Fin q \<Rightarrow>
              rounded_to 2 q t \<and>
              (\<bar>q\<bar> < 10 ^ 21 \<longrightarrow> (\<exists>s. t = Chars s \<and> fraction_digits s = 2)) \<and>
              (10 ^ 21 \<le> \<bar>q\<bar> \<longrightarrow> t = Shortest q [] \<and> whole q)
          | PInf \<Rightarrow> t = Chars ''Infinity''
          | NInf \<Rightarrow> t = Chars ''-Infinity''
          | NaN \<Rightarrow> False)"
    unfolding d_def n_def by blast
qed

lemma three_halves: "js_div (Fin 3) (Fin 2) = Fin (3 / 2)"
proof -
  have "round_double (3 / 2) = Fin (3 / 2)"
  proof (rule round_double_at [where k = 0 and e = "- 52" and m = 6755399441055744])
    show "round_even ((3 / 2) / 2 powi (- 52)) = 6755399441055744"
      by code_simp
  qed (simp_all add: power_int_minus)
  then show ?thesis
    by simp
qed

lemma trout_minnow_quotient:
  "js_div (totalWeight [trout, minnow]) (Fin (of_nat (totalCatches [trout, minnow]))) = Fin (3 / 2)"
proof -
  have "totalWeight [trout, minnow] = Fin (\<Sum>f\<leftarrow>[trout, minnow]. or_zero (weight f))"
    by (rule totalWeight_whole_exact) (simp_all add: trout_def minnow_def or_zero_def whole_def)
  then have total: "totalWeight [trout, minnow] = Fin 3"
    by (simp add: trout_def minnow_def or_zero_def)
  have count: "Fin (of_nat (totalCatches [trout, minnow])) = Fin 2"
    by (simp add: totalCatches_def)
  show ?thesis
    by (simp only: total count three_halves)
qed

lemma averageWeight_example: "averageWeight [trout, minnow] = Str (Chars ''1.50'')"
proof -
  have shown: "toFixed 2 (Fin (3 / 2)) = Chars ''1.50''"
    by code_simp
  have some: "0 < totalCatches [trout, minnow]"
    by (simp add: totalCatches_def)
  show ?thesis
    by (simp only: averageWeight_def some if_True trout_minnow_quotient shown)
qed

theorem averageWeight_rounded_witness:
  "averageWeight [] = Num (Fin 0) \<and>
   (\<exists>s. averageWeight [trout, minnow] = Str (Chars s) \<and> fraction_digits s = 2 \<and>
      rounded_to 2 (3 / 2) (Chars s))"
  using averageWeight_rounded [of "[]"] averageWeight_rounded [of "[trout, minnow]"]
  unfolding trout_minnow_quotient by auto

section \<open>The length column\<close>


lemma weight_sorter_absent: "weight a = None \<Longrightarrow> weight_sorter a b = NaN"
  by (simp add: weight_sorter_def to_number_def js_sub_def)



section \<open>Fetching and creating\<close>

text \<open>
  The operations are followed from their call to the end of their continuation. What
  other handlers do while a call is pending is outside these statements: both operations
  write the state only after their call has settled, apart from \<open>loading\<close>.
\<close>

lemma rejection_is_notified:
  "errorMessages (fst (loadCatches Rejects s)) = [''Failed to load fish catches''] \<and>
   errorMessages (fst (handleAddCatch vals Rejects listed s)) = [''Failed to add fish catch'']"
  by (simp add: loadCatches_def handleAddCatch_def Let_def errorMessages_def split: option.splits)

text \<open>
  C1, at the input where it fails. When the list call or the create call resolves with
  \<open>success = false\<close>, the operation issues its call and nothing else: no notification is
  shown. (A call that rejects is notified, \<open>rejection_is_notified\<close>.)
\<close>

theorem unsuccessful_result_is_silent:
  "fst (loadCatches (Resolves (Result False [])) s) = [ListCall] \<and>
   fst (handleAddCatch filledForm (Resolves (Result False None)) listed s) =
     [CreateCall (catchData filledForm july4)]"
  by (simp add: loadCatches_def handleAddCatch_def Let_def filledForm_def)

text \<open>
  C2. A submission whose required fields are present issues exactly one create call,
  first of all its effects; when that call succeeds, exactly one list call follows it,
  the modal is closed and every form field is reset.
\<close>

theorem handleAddCatch_success:
  "required_present vals \<Longrightarrow>
   length (createCalls (fst (handleAddCatch vals created listed s))) = 1 \<and>
   (\<not> failed created \<longrightarrow>
      listCalls (fst (handleAddCatch vals created listed s)) = 1 \<and>
      (\<exists>p es. fst (handleAddCatch vals created listed s) = CreateCall p # es \<and> listCalls es = 1) \<and>
      \<not> isModalOpen (snd (handleAddCatch vals created listed s)) \<and>
      form (snd (handleAddCatch vals created listed s)) = resetFields)"
  by (cases created)
    (auto simp add: handleAddCatch_def required_present_def createCalls_def listCalls_def
      loadCatches_def Let_def split: option.splits settled.splits prod.splits)

theorem handleAddCatch_success_witness:
  "length (createCalls (fst (handleAddCatch filledForm (Resolves (Result True None))
      (Resolves (Result True [trout])) openView))) = 1 \<and>
   listCalls (fst (handleAddCatch filledForm (Resolves (Result True None))
      (Resolves (Result True [trout])) openView)) = 1 \<and>
   \<not> isModalOpen (snd (handleAddCatch filledForm (Resolves (Result True None))
      (Resolves (Result True [trout])) openView)) \<and>
   form (snd (handleAddCatch filledForm (Resolves (Result True None))
      (Resolves (Result True [trout])) openView)) = resetFields"
  using handleAddCatch_success [of filledForm "Resolves (Result True None)"
      "Resolves (Result True [trout])" openView]
  by (simp add: required_present_def filledForm_def)

text \<open>
  C6. When the create call fails (it rejects or throws, or resolves with
  \<open>success = false\<close>), an open modal stays open and the form's fields are what they were.
\<close>

theorem handleAddCatch_failure:
  "failed created \<Longrightarrow> isModalOpen s \<Longrightarrow>
   isModalOpen (snd (handleAddCatch vals created listed s)) \<and>
   form (snd (handleAddCatch vals created listed s)) = form s"
  by (cases created) (simp_all add: handleAddCatch_def split: option.splits)

theorem handleAddCatch_failure_witness:
  "isModalOpen (snd (handleAddCatch filledForm Rejects Rejects openView)) \<and>
   form (snd (handleAddCatch filledForm Rejects Rejects openView)) = filledForm"
  using handleAddCatch_failure [of Rejects openView filledForm Rejects]
  by (simp add: openView_def)

text \<open>
  C7. \<open>loadCatches\<close> always ends with \<open>loading\<close> cleared, and when the list call fails
  the records are the ones held before.
\<close>

theorem loadCatches_failure:
  "loading (snd (loadCatches listed s)) = False \<and>
   (failed listed \<longrightarrow> catches (snd (loadCatches listed s)) = catches s)"
  by (cases listed) (simp_all add: loadCatches_def Let_def)

theorem loadCatches_failure_witness:
  "loading (snd (loadCatches (Resolves (Result False [])) openView)) = False \<and>
   catches (snd (loadCatches (Resolves (Result False [])) openView)) = [trout]"
  using loadCatches_failure [of "Resolves (Result False [])" openView]
  by (simp add: openView_def)

subsection \<open>The date of the payload\<close>

lemma digits_2024: "digits 2024 = ''2024''"
  by code_simp

lemma digits_7: "digits 7 = ''7''"
  by code_simp

lemma digits_4: "digits 4 = ''4''"
  by code_simp

lemma format_2024_07_04:
  "year d = 2024 \<Longrightarrow> month d = 7 \<Longrightarrow> day d = 4 \<Longrightarrow> format_YYYY_MM_DD d = ''2024-07-04''"
  by (simp add: format_YYYY_MM_DD_def padStart_def digits_2024 digits_7 digits_4)

text \<open>
  C8. Whatever the time of day of the picked value, a date on 4 July 2024 is sent as the
  string \<open>2024-07-04\<close>, in the only create call, with every other field as the form
  holds it.
\<close>

theorem payload_date:
  "datecaught vals = Some d \<Longrightarrow> year d = 2024 \<Longrightarrow> month d = 7 \<Longrightarrow> day d = 4 \<Longrightarrow>
   createCalls (fst (handleAddCatch vals created listed s)) =
     [\<lparr>species = species vals, weight = weight vals, length_in = length_in vals,
       location = location vals, datecaught = ''2024-07-04'',
       timeOfDay = timeOfDay vals, bait = bait vals, weather = weather vals,
       notes_text = notes_text vals\<rparr>]"
  by (cases created)
    (simp_all add: handleAddCatch_def createCalls_def catchData_def format_2024_07_04
      loadCatches_def Let_def split: prod.splits settled.splits)

theorem payload_date_witness:
  "createCalls (fst (handleAddCatch filledForm (Resolves (Result True None)) Rejects openView)) =
     [\<lparr>species = Some ''Bass'', weight = Some (5 / 2), length_in = None,
       location = Some ''Lake Michigan'', datecaught = ''2024-07-04'',
       timeOfDay = Some morning, bait = None, weather = None, notes_text = None\<rparr>]"
  using payload_date [of filledForm july4 "Resolves (Result True None)" Rejects openView]
  by (simp add: filledForm_def july4_def)

section \<open>The biggest fish\<close>

lemma biggest_fold:
  "(foldl bigger acc cs = acc \<and> (\<forall>f\<in>set cs. or_zero (weight f) \<le> or_zero (weight_of acc))) \<or>
   (\<exists>f\<in>set cs. foldl bigger acc cs = Caught f \<and>
      or_zero (weight_of acc) < or_zero (weight f) \<and>
      (\<forall>g\<in>set cs. or_zero (weight g) \<le> or_zero (weight f)))"
proof (induction cs arbitrary: acc)
  case Nil
  then show ?case by simp
next
  case (Cons c cs)
  show ?case
  proof (cases "or_zero (weight_of acc) < or_zero (weight c)")
    case True
    with Cons.IH [of "Caught c"] show ?thesis
      by (auto simp: less_imp_le)
  next
    case False
    with Cons.IH [of acc] show ?thesis
      by (auto simp: not_less)
  qed
qed

lemma biggestFish_cases:
  "(biggestFish cs = Sentinel \<and> (\<forall>f\<in>set cs. or_zero (weight f) \<le> 0)) \<or>
   (\<exists>f\<in>set cs. biggestFish cs = Caught f \<and> 0 < or_zero (weight f) \<and>
      (\<forall>g\<in>set cs. or_zero (weight g) \<le> or_zero (weight f)))"
  using biggest_fold [of Sentinel cs] by (simp add: biggestFish_def or_zero_def)

text \<open>
  C3, as stated, fails on a single record of weight 0: the reduction keeps the initial
  object, which is not a record of the sequence, and the card shows the fallback although
  the sequence is not empty.
\<close>

theorem biggestFish_zero_counterexample:
  "[minnow] \<noteq> [] \<and> biggestFish [minnow] = Sentinel \<and> biggestFish [minnow] \<noteq> Caught minnow \<and>
   biggestFishFormatter (biggestFishValue [minnow]) = Chars ''None yet''"
  by (simp add: biggestFish_def biggestFishValue_def biggestFishFormatter_def minnow_def or_zero_def)

text \<open>
  C3, amended. The value of the card (the weight of \<open>biggestFish\<close>, missing as 0) is at
  least every record's weight. When some record has a positive weight, \<open>biggestFish\<close> is
  a record of the sequence; otherwise it is the initial object \<^verbatim>\<open>{ weight: 0 }\<close>. The
  card shows the fallback exactly when no record has a positive weight, which includes the
  empty sequence.
\<close>

theorem biggestFish_maximal:
  "(\<forall>f\<in>set cs. or_zero (weight f) \<le> biggestFishValue cs) \<and>
   ((\<exists>f\<in>set cs. 0 < or_zero (weight f)) \<longrightarrow> (\<exists>f\<in>set cs. biggestFish cs = Caught f)) \<and>
   (\<not> (\<exists>f\<in>set cs. 0 < or_zero (weight f)) \<longrightarrow> biggestFish cs = Sentinel) \<and>
   (biggestFishFormatter (biggestFishValue cs) = Chars ''None yet'' \<longleftrightarrow>
      \<not> (\<exists>f\<in>set cs. 0 < or_zero (weight f)))"
proof -
  have zero: "or_zero (Some 0) = 0"
    by (simp add: or_zero_def)
  from biggestFish_cases [of cs] show ?thesis
  proof
    assume low: "biggestFish cs = Sentinel \<and> (\<forall>f\<in>set cs. or_zero (weight f) \<le> 0)"
    then have "\<not> (\<exists>f\<in>set cs. 0 < or_zero (weight f))"
      by (auto simp: not_less)
    with low show ?thesis
      by (simp add: biggestFishValue_def biggestFishFormatter_def zero)
  next
    assume "\<exists>f\<in>set cs. biggestFish cs = Caught f \<and> 0 < or_zero (weight f) \<and>
      (\<forall>g\<in>set cs. or_zero (weight g) \<le> or_zero (weight f))"
    then obtain f where f: "f \<in> set cs" "biggestFish cs = Caught f" "0 < or_zero (weight f)"
      "\<forall>g\<in>set cs. or_zero (weight g) \<le> or_zero (weight f)"
      by blast
    from f(1,3) have pos: "\<exists>f\<in>set cs. 0 < or_zero (weight f)"
      by blast
    from f(1,2) have rec: "\<exists>f\<in>set cs. biggestFish cs = Caught f"
      by blast
    from f(2,3) have shown: "biggestFishFormatter (biggestFishValue cs) \<noteq> Chars ''None yet''"
      by (simp add: biggestFishValue_def biggestFishFormatter_def)
    from f(2,4) have top: "\<forall>g\<in>set cs. or_zero (weight g) \<le> biggestFishValue cs"
      by (simp add: biggestFishValue_def)
    from pos rec shown top show ?thesis
      by blast
  qed
qed

theorem biggestFish_maximal_witness:
  "biggestFish [minnow, trout] = Caught trout \<and>
   biggestFishFormatter (biggestFishValue [minnow, trout]) = Shortest 3 '' lbs'' \<and>
   biggestFish [] = Sentinel"
  using biggestFish_maximal [of "[minnow, trout]"] biggestFish_maximal [of "[]"]
  by (auto simp: trout_def minnow_def or_zero_def biggestFishValue_def biggestFishFormatter_def)

text \<open>
  C10. When the sequence is not empty and every record's weight is 0 or missing, the
  strict comparison never replaces the initial object: \<open>biggestFish\<close> is that object and
  the card shows \<open>None yet\<close>.
\<close>

theorem biggestFish_all_weightless:
  "cs \<noteq> [] \<Longrightarrow> \<forall>f\<in>set cs. weightless f \<Longrightarrow>
   biggestFish cs = Sentinel \<and>
   biggestFishFormatter (biggestFishValue cs) = Chars ''None yet''"
  using biggestFish_cases [of cs]
  by (auto simp: weightless_def or_zero_def biggestFishValue_def biggestFishFormatter_def)

theorem biggestFish_all_weightless_witness:
  "biggestFish [minnow, minnow\<lparr>weight := None\<rparr>] = Sentinel \<and>
   biggestFishFormatter (biggestFishValue [minnow, minnow\<lparr>weight := None\<rparr>]) = Chars ''None yet''"
  using biggestFish_all_weightless [of "[minnow, minnow\<lparr>weight := None\<rparr>]"]
  by (simp add: weightless_def minnow_def)

end
